theory Spec2Isabelle
  imports Complex_Main "HOL-Library.Monad_Syntax"
begin

section \<open>Data model\<close>

text \<open>
  The program of \<^verbatim>\<open>assignment.cpp\<close> works on \<^verbatim>\<open>vector<double>\<close> with \<^verbatim>\<open>int\<close> indices.
  A \<^verbatim>\<open>double\<close> is modelled by a \<^typ>\<open>real\<close>: arithmetic is exact, there is no rounding,
  no overflow to an infinity and no NaN. A quotient is written as the source writes it;
  where the divisor is 0 the machine gives an infinity or NaN and HOL gives 0, and the
  theorems below state such a quotient without evaluating it. An \<^verbatim>\<open>int\<close> is
  modelled by an \<^typ>\<open>int\<close>; the indices and counters of the program are bounded by the
  number of candles, so they do not wrap for any series shorter than \<open>2^31\<close> bars.
  Where a claim is about the value itself that the machine returns, the range of the
  RSI, the function is embedded again with the doubles and \<^verbatim>\<open>int\<close>s of the machine
  (section "\<^verbatim>\<open>calculate_rsi\<close> in machine arithmetic").

  \<^verbatim>\<open>operator[]\<close> of a vector does not check its index: a read outside \<open>0 .. size-1\<close>
  is undefined behaviour. Every read of the model goes through \<open>vec_at\<close>, which is
  \<open>None\<close> outside the vector, and every function that reads returns an option: \<open>None\<close>
  stands for "the code has read outside the vector".
\<close>

definition vec_at :: "real list \<Rightarrow> int \<Rightarrow> real option" where
  "vec_at v i = (if 0 \<le> i \<and> i < int (length v) then Some (v ! nat i) else None)"

text \<open>
  Modelled from the spec: \<^verbatim>\<open>strategy.h\<close>, which declares \<^verbatim>\<open>Candle\<close> and \<^verbatim>\<open>TradeResult\<close>, is
  not among the sources. The code reads the field \<^verbatim>\<open>close\<close> of a candle only, and builds a
  result from four values in this order: the success rate, the average return, the number
  of trades, and an empty collection. The field names of the result are the spec's.
\<close>

record Candle =
  close :: real

record TradeResult =
  success_rate :: real
  average_return_percent :: real
  trade_count :: int
  trade_log :: "real list"

section \<open>Indicators\<close>

subsection \<open>\<^verbatim>\<open>calculate_rsi\<close> (lines 11 to 29)\<close>

text \<open>
  The loop of lines 18 to 22, with the loop variable \<open>i\<close> and the two accumulators. The
  default value 14 of \<open>period\<close> is passed by the caller.
\<close>

function rsi_loop :: "real list \<Rightarrow> int \<Rightarrow> int \<Rightarrow> real \<Rightarrow> real \<Rightarrow> (real \<times> real) option" where
  "rsi_loop closes index i gain loss =
     (if i \<le> index then
        do {
          c \<leftarrow> vec_at closes i;
          p \<leftarrow> vec_at closes (i - 1);
          let change = c - p;
          if change > 0 then rsi_loop closes index (i + 1) (gain + change) loss
          else rsi_loop closes index (i + 1) gain (loss - change)
        }
      else Some (gain, loss))"
  by pat_completeness auto
termination
  by (relation "measure (\<lambda>(closes, index, i, gain, loss). nat (index + 1 - i))") auto

definition calculate_rsi :: "real list \<Rightarrow> int \<Rightarrow> int \<Rightarrow> real option" where
  "calculate_rsi closes index period =
     (if index < period then Some 50
      else do {
        (gain, loss) \<leftarrow> rsi_loop closes index (index - period + 1) 0 0;
        if loss = 0 then Some 100
        else let rs = gain / loss in Some (100 - 100 / (1 + rs))
      })"

subsection \<open>\<^verbatim>\<open>ema\<close> (lines 34 to 43) and \<^verbatim>\<open>calculate_macd\<close> (lines 48 to 52)\<close>

function ema_loop :: "real list \<Rightarrow> int \<Rightarrow> real \<Rightarrow> int \<Rightarrow> real \<Rightarrow> real option" where
  "ema_loop data current_index k i e =
     (if i \<le> current_index then
        do {
          x \<leftarrow> vec_at data i;
          ema_loop data current_index k (i + 1) (x * k + e * (1 - k))
        }
      else Some e)"
  by pat_completeness auto
termination
  by (relation "measure (\<lambda>(data, current_index, k, i, e). nat (current_index + 1 - i))") auto

definition ema :: "real list \<Rightarrow> int \<Rightarrow> int \<Rightarrow> real option" where
  "ema data current_index len =
     (let k = 2 / real_of_int (len + 1) in
      do {
        e \<leftarrow> vec_at data (current_index - len + 1);
        ema_loop data current_index k (current_index - len + 2) e
      })"

definition calculate_macd :: "real list \<Rightarrow> int \<Rightarrow> real option" where
  "calculate_macd closes index =
     do {
       ema12 \<leftarrow> ema closes index 12;
       ema26 \<leftarrow> ema closes index 26;
       Some (ema12 - ema26)
     }"

subsection \<open>\<^verbatim>\<open>calculate_sma\<close> (lines 56 to 63)\<close>

text \<open>The accumulator \<^verbatim>\<open>sum\<close> of the source is called \<open>acc\<close> here.\<close>

function sma_loop :: "real list \<Rightarrow> int \<Rightarrow> int \<Rightarrow> real \<Rightarrow> real option" where
  "sma_loop closes index i acc =
     (if i \<le> index then
        do {
          c \<leftarrow> vec_at closes i;
          sma_loop closes index (i + 1) (acc + c)
        }
      else Some acc)"
  by pat_completeness auto
termination
  by (relation "measure (\<lambda>(closes, index, i, acc). nat (index + 1 - i))") auto

definition calculate_sma :: "real list \<Rightarrow> int \<Rightarrow> int \<Rightarrow> real option" where
  "calculate_sma closes index period =
     (if index < period then vec_at closes index
      else do {
        acc \<leftarrow> sma_loop closes index (index - period + 1) 0;
        Some (acc / real_of_int period)
      })"

section \<open>The strategy engine: \<^verbatim>\<open>run_strategy\<close> (lines 67 to 118)\<close>

text \<open>The local variables of lines 71 to 74.\<close>

record strategy_state =
  wins :: int
  trades :: int
  total_return :: real
  in_position :: bool
  entry_price :: real

definition init_state :: strategy_state where
  "init_state = \<lparr>wins = 0, trades = 0, total_return = 0, in_position = False, entry_price = 0\<rparr>"

text \<open>
  The accounting of a closed trade, written twice in the source (lines 97 to 100 and
  lines 107 to 110) with the same four statements; the exit price is the argument.
\<close>

definition book_trade :: "real \<Rightarrow> real \<Rightarrow> strategy_state \<Rightarrow> strategy_state" where
  "book_trade profit_threshold exit_price st =
     (let ret = (exit_price - entry_price st) / entry_price st in
      st\<lparr>total_return := total_return st + ret,
         wins := (if ret > profit_threshold then wins st + 1 else wins st),
         trades := trades st + 1\<rparr>)"

text \<open>
  The body of the scan, lines 78 to 102, at index \<open>i\<close>. The source reads \<open>closes[i]\<close>
  inside the two conditions; the model reads it once, after the indicators. Where the
  indicators have returned, \<open>i\<close> is an index of the vector, so the read succeeds and its
  place does not change the result.
\<close>

definition strategy_step :: "real list \<Rightarrow> real \<Rightarrow> int \<Rightarrow> strategy_state \<Rightarrow> strategy_state option" where
  "strategy_step closes profit_threshold i st =
     do {
       rsi \<leftarrow> calculate_rsi closes i 14;
       macd \<leftarrow> calculate_macd closes i;
       sma20 \<leftarrow> calculate_sma closes i 20;
       c \<leftarrow> vec_at closes i;
       if \<not> in_position st \<and> rsi < 30 \<and> macd > 0 \<and> c > sma20 then
         Some (st\<lparr>in_position := True, entry_price := c\<rparr>)
       else if in_position st \<and> (rsi > 60 \<or> c < sma20) then
         Some ((book_trade profit_threshold c st)\<lparr>in_position := False\<rparr>)
       else Some st
     }"

text \<open>The loop of line 77.\<close>

function scan_loop :: "real list \<Rightarrow> real \<Rightarrow> int \<Rightarrow> strategy_state \<Rightarrow> strategy_state option" where
  "scan_loop closes profit_threshold i st =
     (if i < int (length closes) then
        do {
          st' \<leftarrow> strategy_step closes profit_threshold i st;
          scan_loop closes profit_threshold (i + 1) st'
        }
      else Some st)"
  by pat_completeness auto
termination
  by (relation "measure (\<lambda>(closes, profit_threshold, i, st). nat (int (length closes) - i))") auto

text \<open>
  Lines 106 to 111. \<^verbatim>\<open>closes.back()\<close> of an empty vector is undefined behaviour.
\<close>

definition force_close :: "real list \<Rightarrow> real \<Rightarrow> strategy_state \<Rightarrow> strategy_state option" where
  "force_close closes profit_threshold st =
     (if in_position st then
        (if closes = [] then None
         else Some (book_trade profit_threshold (last closes) st))
      else Some st)"

text \<open>Lines 114 to 117.\<close>

definition summary :: "strategy_state \<Rightarrow> TradeResult" where
  "summary st =
     (let avg_return = (if trades st \<noteq> 0
                        then (total_return st / real_of_int (trades st)) * 100 else 0);
          success = (if trades st \<noteq> 0
                     then real_of_int (wins st) / real_of_int (trades st) * 100 else 0)
      in \<lparr>success_rate = success, average_return_percent = avg_return,
          trade_count = trades st, trade_log = []\<rparr>)"

text \<open>The state of the local variables when line 114 is reached.\<close>

definition final_state :: "real list \<Rightarrow> real \<Rightarrow> strategy_state option" where
  "final_state closes profit_threshold =
     do {
       st \<leftarrow> scan_loop closes profit_threshold 26 init_state;
       force_close closes profit_threshold st
     }"

definition run_strategy :: "Candle list \<Rightarrow> real \<Rightarrow> TradeResult option" where
  "run_strategy candles profit_threshold =
     map_option summary (final_state (map close candles) profit_threshold)"

section \<open>\<^verbatim>\<open>calculate_rsi\<close> in machine arithmetic\<close>

text \<open>
  The range of the value of \<^verbatim>\<open>calculate_rsi\<close> depends on what the machine does where the
  reals have no answer, so the function is embedded a second time, with the doubles and
  the \<^verbatim>\<open>int\<close>s of the machine.

  A double is a finite number, one of the two infinities, or NaN. The sign of a zero is
  not modelled: \<^verbatim>\<open>calculate_rsi\<close> divides by \<^verbatim>\<open>loss\<close> only after the test
  \<^verbatim>\<open>loss == 0\<close>, and by \<^verbatim>\<open>1 + rs\<close>, which is never a zero.
\<close>

datatype double = Finite real | PInf | NInf | NaN

text \<open>
  The format of the doubles is a parameter: \<open>round_to\<close> rounds an exact result to the
  format with the exponent unbounded, and \<open>largest\<close> is the largest finite number of the
  format. The theorem about the range holds for every rounding that is monotone and keeps
  0, 1 and 100, as every rounding mode of IEEE 754 does.
\<close>

record fp_format =
  round_to :: "real \<Rightarrow> real"
  largest :: real

text \<open>The double that an operation returns when its exact result is \<open>x\<close>.\<close>

definition fin :: "fp_format \<Rightarrow> real \<Rightarrow> double" where
  "fin F x =
     (let r = round_to F x in
      if r > largest F then PInf else if r < - largest F then NInf else Finite r)"

text \<open>
  Negation, addition and subtraction of IEEE 754: NaN propagates, infinities of opposite
  signs add up to NaN, an infinity absorbs everything else.
\<close>

fun dneg :: "double \<Rightarrow> double" where
  "dneg (Finite x) = Finite (- x)"
| "dneg PInf = NInf"
| "dneg NInf = PInf"
| "dneg NaN = NaN"

fun dadd :: "fp_format \<Rightarrow> double \<Rightarrow> double \<Rightarrow> double" where
  "dadd F (Finite x) (Finite y) = fin F (x + y)"
| "dadd F NaN b = NaN"
| "dadd F a NaN = NaN"
| "dadd F PInf NInf = NaN"
| "dadd F NInf PInf = NaN"
| "dadd F PInf b = PInf"
| "dadd F a PInf = PInf"
| "dadd F NInf b = NInf"
| "dadd F a NInf = NInf"

definition dsub :: "fp_format \<Rightarrow> double \<Rightarrow> double \<Rightarrow> double" where
  "dsub F a b = dadd F a (dneg b)"

text \<open>
  Division of IEEE 754: NaN propagates, \<open>0 / 0\<close> and the quotient of two infinities are
  NaN, a finite number over an infinity is 0, a non-zero number over 0 is an infinity.
\<close>

fun ddiv :: "fp_format \<Rightarrow> double \<Rightarrow> double \<Rightarrow> double" where
  "ddiv F NaN b = NaN"
| "ddiv F a NaN = NaN"
| "ddiv F (Finite x) (Finite y) =
     (if y = 0 then (if x = 0 then NaN else if x > 0 then PInf else NInf)
      else fin F (x / y))"
| "ddiv F (Finite x) b = Finite 0"
| "ddiv F PInf (Finite y) = (if y < 0 then NInf else PInf)"
| "ddiv F NInf (Finite y) = (if y < 0 then PInf else NInf)"
| "ddiv F a b = NaN"

text \<open>The comparisons \<^verbatim>\<open><\<close> and \<^verbatim>\<open>==\<close>: false whenever an operand is NaN.\<close>

fun dless :: "double \<Rightarrow> double \<Rightarrow> bool" where
  "dless NaN b = False"
| "dless a NaN = False"
| "dless (Finite x) (Finite y) = (x < y)"
| "dless a NInf = False"
| "dless NInf b = True"
| "dless PInf b = False"
| "dless a PInf = True"

definition deq :: "double \<Rightarrow> double \<Rightarrow> bool" where
  "deq a b = (a \<noteq> NaN \<and> a = b)"

text \<open>
  The values of an \<^verbatim>\<open>int\<close>. An \<^verbatim>\<open>int\<close> operation whose result is not among them is
  undefined behaviour, \<open>None\<close> in the functions below, like a read outside the vector.
\<close>

definition int32 :: "int \<Rightarrow> bool" where
  "int32 n = (- (2 ^ 31) \<le> n \<and> n < 2 ^ 31)"

definition vec_at_ieee :: "double list \<Rightarrow> int \<Rightarrow> double option" where
  "vec_at_ieee v i = (if 0 \<le> i \<and> i < int (length v) then Some (v ! nat i) else None)"

text \<open>
  Lines 18 to 22: the two reads, \<^verbatim>\<open>change > 0\<close> written as \<open>0 < change\<close>, the two
  updates, and \<^verbatim>\<open>++i\<close>.
\<close>

function rsi_loop_ieee ::
  "fp_format \<Rightarrow> double list \<Rightarrow> int \<Rightarrow> int \<Rightarrow> double \<Rightarrow> double \<Rightarrow> (double \<times> double) option" where
  "rsi_loop_ieee F closes index i gain loss =
     (if i \<le> index then
        do {
          c \<leftarrow> vec_at_ieee closes i;
          p \<leftarrow> vec_at_ieee closes (i - 1);
          let change = dsub F c p;
          if \<not> int32 (i + 1) then None
          else if dless (Finite 0) change
          then rsi_loop_ieee F closes index (i + 1) (dadd F gain change) loss
          else rsi_loop_ieee F closes index (i + 1) gain (dsub F loss change)
        }
      else Some (gain, loss))"
  by pat_completeness auto
termination
  by (relation "measure (\<lambda>(F, closes, index, i, gain, loss). nat (index + 1 - i))") auto

text \<open>Lines 11 to 29; \<^verbatim>\<open>index - period + 1\<close> is computed as \<^verbatim>\<open>(index - period) + 1\<close>.\<close>

definition calculate_rsi_ieee :: "fp_format \<Rightarrow> double list \<Rightarrow> int \<Rightarrow> int \<Rightarrow> double option" where
  "calculate_rsi_ieee F closes index period =
     (if index < period then Some (Finite 50)
      else if \<not> int32 (index - period) \<or> \<not> int32 (index - period + 1) then None
      else do {
        (gain, loss) \<leftarrow> rsi_loop_ieee F closes index (index - period + 1) (Finite 0) (Finite 0);
        if deq loss (Finite 0) then Some (Finite 100)
        else let rs = ddiv F gain loss
             in Some (dsub F (Finite 100) (ddiv F (Finite 100) (dadd F (Finite 1) rs)))
      })"

text \<open>Finite doubles, and the values an accumulator of non-negative terms can take.\<close>

definition is_finite :: "double \<Rightarrow> bool" where
  "is_finite d = (case d of Finite x \<Rightarrow> True | _ \<Rightarrow> False)"

definition nonneg_or_inf :: "double \<Rightarrow> bool" where
  "nonneg_or_inf d = (case d of Finite x \<Rightarrow> 0 \<le> x | PInf \<Rightarrow> True | _ \<Rightarrow> False)"

text \<open>
  The format binary64 with its rounding left out: every finite result up to the largest
  double, \<open>2^1024 - 2^971\<close>, is kept as it is. Where every exact result is a double or
  lies beyond \<open>2^1024\<close>, as on the two series \<open>swing_closes\<close> and \<open>nan_closes\<close> below,
  binary64 rounds nothing and returns the same values.
\<close>

definition exact_binary64 :: fp_format where
  "exact_binary64 = \<lparr>round_to = (\<lambda>x. x), largest = 2 ^ 1024 - 2 ^ 971\<rparr>"

section \<open>The specification's reading of the indicators\<close>

text \<open>
  These definitions follow the words of the specification, not the loops of the code;
  the theorems below compare them with the code.
\<close>

text \<open>The day-over-day change of bar \<open>j\<close>: its close against the close of the bar before.\<close>

definition day_change :: "real list \<Rightarrow> int \<Rightarrow> real" where
  "day_change closes j = closes ! nat j - closes ! nat (j - 1)"

text \<open>
  RSI as specified: over the bars \<open>i - period + 1 .. i\<close>, \<open>gain\<close> is the sum of the
  positive changes and \<open>loss\<close> the sum of the absolute values of the negative ones.
\<close>

definition rsi_spec :: "real list \<Rightarrow> int \<Rightarrow> int \<Rightarrow> real" where
  "rsi_spec closes i period =
     (let bars = [i - period + 1..i];
          gain = (\<Sum>j\<leftarrow>filter (\<lambda>j. day_change closes j > 0) bars. day_change closes j);
          loss = (\<Sum>j\<leftarrow>filter (\<lambda>j. day_change closes j < 0) bars. \<bar>day_change closes j\<bar>)
      in if loss = 0 then 100 else 100 - 100 / (1 + gain / loss))"

text \<open>The trailing \<open>p\<close> closes ending at bar \<open>i\<close> inclusive.\<close>

definition sma_window :: "real list \<Rightarrow> int \<Rightarrow> int \<Rightarrow> real list" where
  "sma_window closes i p = map (\<lambda>j. closes ! nat j) [i - p + 1..i]"

text \<open>
  EMA as specified: the seed is the sample \<open>len - 1\<close> bars before \<open>i\<close>, and every later
  sample up to \<open>i\<close> is blended in with the smoothing factor \<open>2 / (len + 1)\<close>.
\<close>

definition ema_spec :: "real list \<Rightarrow> int \<Rightarrow> int \<Rightarrow> real" where
  "ema_spec data i len =
     (let k = 2 / (real_of_int len + 1);
          seed = data ! nat (i - (len - 1));
          later = map (\<lambda>j. data ! nat j) [i - (len - 1) + 1..i]
      in foldl (\<lambda>ema sample. sample * k + ema * (1 - k)) seed later)"

text \<open>
  The entry condition of the specification at bar \<open>i\<close>: RSI below 30, MACD positive and
  the close above its 20-bar average.
\<close>

definition entry_signal :: "real list \<Rightarrow> int \<Rightarrow> bool" where
  "entry_signal closes i =
     (case (calculate_rsi closes i 14, calculate_macd closes i, calculate_sma closes i 20,
            vec_at closes i) of
        (Some rsi, Some macd, Some sma20, Some c) \<Rightarrow> rsi < 30 \<and> macd > 0 \<and> c > sma20
      | _ \<Rightarrow> False)"

section \<open>The scan, observed\<close>

text \<open>
  The loop of line 77 again, with two counters that the code does not keep: the number of
  steps that opened a position (FLAT to LONG) and the number of steps that closed one
  (LONG to FLAT).
\<close>

function scan_count :: "real list \<Rightarrow> real \<Rightarrow> int \<Rightarrow> strategy_state \<Rightarrow> int \<Rightarrow> int \<Rightarrow> (int \<times> int) option" where
  "scan_count closes profit_threshold i st entries exits =
     (if i < int (length closes) then
        do {
          st' \<leftarrow> strategy_step closes profit_threshold i st;
          scan_count closes profit_threshold (i + 1) st'
            (if \<not> in_position st \<and> in_position st' then entries + 1 else entries)
            (if in_position st \<and> \<not> in_position st' then exits + 1 else exits)
        }
      else Some (entries, exits))"
  by pat_completeness auto
termination
  by (relation "measure (\<lambda>(closes, profit_threshold, i, st, entries, exits). nat (int (length closes) - i))") auto

text \<open>
  The states of the local variables at the head of the loop of line 77:
  \<open>scan_reaches closes profit_threshold i st\<close> says that the loop reaches the test
  \<^verbatim>\<open>i < closes.size()\<close> with index \<open>i\<close> and variables \<open>st\<close>.
\<close>

inductive scan_reaches :: "real list \<Rightarrow> real \<Rightarrow> int \<Rightarrow> strategy_state \<Rightarrow> bool"
  for closes :: "real list" and profit_threshold :: real where
  start: "scan_reaches closes profit_threshold 26 init_state"
| step: "scan_reaches closes profit_threshold i st \<Longrightarrow> i < int (length closes) \<Longrightarrow>
         strategy_step closes profit_threshold i st = Some st' \<Longrightarrow>
         scan_reaches closes profit_threshold (i + 1) st'"

code_pred scan_reaches .

text \<open>The number of positions a state holds: 1 when LONG, 0 when FLAT.\<close>

definition held :: "strategy_state \<Rightarrow> int" where
  "held st = (if in_position st then 1 else 0)"

section \<open>Sample series\<close>

text \<open>
  Twelve bars at 1, fourteen bars at 11 and a last bar at 10 (indices 0 to 26): at index
  26 the RSI is 0, the MACD is positive and the close is above its 20-bar average.
\<close>

definition dip_closes :: "real list" where
  "dip_closes = [1, 1, 1, 1, 1, 1, 1, 1, 1, 1, 1, 1,
                 11, 11, 11, 11, 11, 11, 11, 11, 11, 11, 11, 11, 11, 11, 10]"

text \<open>The same series followed by a bar at 30, where the RSI is above 60.\<close>

definition rally_closes :: "real list" where
  "rally_closes = dip_closes @ [30]"

text \<open>Thirty bars at 5: the RSI is 100 at every index from 14 on.\<close>

definition flat_closes :: "real list" where
  "flat_closes = replicate 30 5"

text \<open>
  \<open>dip_closes\<close> followed by a bar at 10.5: the position opened at index 26 is still open
  when the series ends.
\<close>

definition hold_closes :: "real list" where
  "hold_closes = dip_closes @ [21 / 2]"

text \<open>
  \<open>dip_closes\<close> moved down by 11: the indicators see the same moves, the prices are not
  positive.
\<close>

definition shifted_closes :: "real list" where
  "shifted_closes = [-10, -10, -10, -10, -10, -10, -10, -10, -10, -10, -10, -10,
                     0, 0, 0, 0, 0, 0, 0, 0, 0, 0, 0, 0, 0, 0, -1]"

text \<open>A candle sequence with the given closes.\<close>

definition candles_of :: "real list \<Rightarrow> Candle list" where
  "candles_of closes = map (\<lambda>c. \<lparr>close = c\<rparr>) closes"

text \<open>The state of the scan right after its first entry, at the given price.\<close>

definition entered_at :: "real \<Rightarrow> strategy_state" where
  "entered_at price =
     \<lparr>wins = 0, trades = 0, total_return = 0, in_position = True, entry_price = price\<rparr>"

text \<open>
  Sixteen finite doubles that swing between \<open>2^1023\<close> and \<open>-2^1023\<close>: every day-over-day
  change is \<open>2^1024\<close> or \<open>-2^1024\<close>, beyond the largest double.
\<close>

definition swing_closes :: "double list" where
  "swing_closes =
     (let hi = Finite (2 ^ 1023); lo = Finite (- (2 ^ 1023))
      in [hi, lo, hi, lo, hi, lo, hi, lo, hi, lo, hi, lo, hi, lo, hi, lo])"

text \<open>Fifteen bars at 1 and a last bar that is NaN.\<close>

definition nan_closes :: "double list" where
  "nan_closes =
     (let one = Finite 1
      in [one, one, one, one, one, one, one, one, one, one, one, one, one, one, one, NaN])"

text \<open>\<open>rally_closes\<close> as doubles.\<close>

definition rally_ieee :: "double list" where
  "rally_ieee = map Finite rally_closes"

section \<open>The loops in closed form\<close>

declare rsi_loop.simps [simp del] ema_loop.simps [simp del] sma_loop.simps [simp del]
declare scan_loop.simps [simp del] scan_count.simps [simp del]

lemma vec_at_Some: "0 \<le> i \<Longrightarrow> i < int (length v) \<Longrightarrow> vec_at v i = Some (v ! nat i)"
  by (simp add: vec_at_def)

lemma vec_at_take:
  "i \<le> k \<Longrightarrow> k < int (length v) \<Longrightarrow> vec_at (take (nat k + 1) v) i = vec_at v i"
  by (auto simp: vec_at_def)

lemma rsi_loop_sums:
  "1 \<le> i \<Longrightarrow> index < int (length closes) \<Longrightarrow>
   rsi_loop closes index i gain loss =
     Some (gain + (\<Sum>j\<leftarrow>[i..index]. if day_change closes j > 0 then day_change closes j else 0),
           loss + (\<Sum>j\<leftarrow>[i..index]. if day_change closes j < 0 then \<bar>day_change closes j\<bar> else 0))"
proof (induction "nat (index + 1 - i)" arbitrary: i gain loss)
  case 0
  then have "index < i" by simp
  then show ?case by (simp add: rsi_loop.simps)
next
  case (Suc n)
  from Suc.hyps(2) have le: "i \<le> index" by simp
  have n: "n = nat (index + 1 - (i + 1))" using Suc.hyps(2) by simp
  have rd: "vec_at closes i = Some (closes ! nat i)"
    "vec_at closes (i - 1) = Some (closes ! nat (i - 1))"
    using Suc.prems le by (simp_all add: vec_at_def)
  have up: "[i..index] = i # [i + 1..index]" using le by (simp add: upto_rec1)
  have ih: "\<And>g l. rsi_loop closes index (i + 1) g l =
     Some (g + (\<Sum>j\<leftarrow>[i + 1..index]. if day_change closes j > 0 then day_change closes j else 0),
           l + (\<Sum>j\<leftarrow>[i + 1..index]. if day_change closes j < 0 then \<bar>day_change closes j\<bar> else 0))"
    using Suc.hyps(1)[OF n] Suc.prems by simp
  show ?case
    apply (subst rsi_loop.simps)
    apply (simp add: le rd up ih Let_def day_change_def)
    done
qed

lemma sma_loop_sum:
  "0 \<le> i \<Longrightarrow> index < int (length closes) \<Longrightarrow>
   sma_loop closes index i acc = Some (acc + (\<Sum>j\<leftarrow>[i..index]. closes ! nat j))"
proof (induction "nat (index + 1 - i)" arbitrary: i acc)
  case 0
  then have "index < i" by simp
  then show ?case by (simp add: sma_loop.simps)
next
  case (Suc n)
  from Suc.hyps(2) have le: "i \<le> index" by simp
  have n: "n = nat (index + 1 - (i + 1))" using Suc.hyps(2) by simp
  have rd: "vec_at closes i = Some (closes ! nat i)"
    using Suc.prems le by (simp add: vec_at_def)
  have up: "[i..index] = i # [i + 1..index]" using le by (simp add: upto_rec1)
  have ih: "\<And>a. sma_loop closes index (i + 1) a = Some (a + (\<Sum>j\<leftarrow>[i + 1..index]. closes ! nat j))"
    using Suc.hyps(1)[OF n] Suc.prems by simp
  show ?case
    by (subst sma_loop.simps) (simp add: le rd up ih)
qed

lemma ema_loop_foldl:
  "0 \<le> i \<Longrightarrow> current_index < int (length data) \<Longrightarrow>
   ema_loop data current_index k i e =
     Some (foldl (\<lambda>ema sample. sample * k + ema * (1 - k)) e (map (\<lambda>j. data ! nat j) [i..current_index]))"
proof (induction "nat (current_index + 1 - i)" arbitrary: i e)
  case 0
  then have "current_index < i" by simp
  then show ?case by (simp add: ema_loop.simps)
next
  case (Suc n)
  from Suc.hyps(2) have le: "i \<le> current_index" by simp
  have n: "n = nat (current_index + 1 - (i + 1))" using Suc.hyps(2) by simp
  have rd: "vec_at data i = Some (data ! nat i)"
    using Suc.prems le by (simp add: vec_at_def)
  have up: "[i..current_index] = i # [i + 1..current_index]" using le by (simp add: upto_rec1)
  have ih: "\<And>a. ema_loop data current_index k (i + 1) a =
     Some (foldl (\<lambda>ema sample. sample * k + ema * (1 - k)) a (map (\<lambda>j. data ! nat j) [i + 1..current_index]))"
    using Suc.hyps(1)[OF n] Suc.prems by simp
  show ?case
    by (subst ema_loop.simps) (simp add: le rd up ih)
qed

lemma ema_eq_spec:
  assumes "len - 1 \<le> i" "i < int (length data)" "i - len + 1 < int (length data)"
  shows "ema data i len = Some (ema_spec data i len)"
proof -
  have s: "0 \<le> i - len + 1" using assms by simp
  have l: "0 \<le> i - len + 2" using assms by simp
  have e: "i - (len - 1) = i - len + 1" "i - (len - 1) + 1 = i - len + 2" by simp_all
  show ?thesis
    using ema_loop_foldl[OF l assms(2)] s assms(3)
    by (simp add: ema_def ema_spec_def Let_def vec_at_def e add.commute)
qed

lemma calculate_rsi_eq_spec:
  assumes "period \<le> i" "i < int (length closes)"
  shows "calculate_rsi closes i period = Some (rsi_spec closes i period)"
proof -
  have "1 \<le> i - period + 1" using assms by simp
  from rsi_loop_sums[OF this assms(2), of 0 0] assms(1)
  show ?thesis
    by (simp add: calculate_rsi_def rsi_spec_def Let_def sum_list_map_filter')
qed

section \<open>What the indicators read\<close>

text \<open>
  Each indicator called at \<open>index\<close> gives the same result on two vectors that agree at
  every position up to \<open>index\<close>: nothing later is read.
\<close>

lemma rsi_loop_agree:
  "(\<And>j. j \<le> index \<Longrightarrow> vec_at a j = vec_at b j) \<Longrightarrow>
   rsi_loop a index i gain loss = rsi_loop b index i gain loss"
proof (induction "nat (index + 1 - i)" arbitrary: i gain loss)
  case 0
  then have "index < i" by simp
  then show ?case by (simp add: rsi_loop.simps)
next
  case (Suc n)
  from Suc.hyps(2) have le: "i \<le> index" by simp
  have n: "n = nat (index + 1 - (i + 1))" using Suc.hyps(2) by simp
  have rd: "vec_at a i = vec_at b i" "vec_at a (i - 1) = vec_at b (i - 1)"
    using Suc.prems le by simp_all
  have ih: "\<And>g l. rsi_loop a index (i + 1) g l = rsi_loop b index (i + 1) g l"
    using Suc.hyps(1)[OF n] Suc.prems by simp
  show ?case
    by (simp add: rsi_loop.simps[of a index i] rsi_loop.simps[of b index i] rd ih Let_def
        cong: if_cong)
qed

lemma sma_loop_agree:
  "(\<And>j. j \<le> index \<Longrightarrow> vec_at a j = vec_at b j) \<Longrightarrow>
   sma_loop a index i acc = sma_loop b index i acc"
proof (induction "nat (index + 1 - i)" arbitrary: i acc)
  case 0
  then have "index < i" by simp
  then show ?case by (simp add: sma_loop.simps)
next
  case (Suc n)
  from Suc.hyps(2) have le: "i \<le> index" by simp
  have n: "n = nat (index + 1 - (i + 1))" using Suc.hyps(2) by simp
  have rd: "vec_at a i = vec_at b i"
    using Suc.prems le by simp
  have ih: "\<And>s. sma_loop a index (i + 1) s = sma_loop b index (i + 1) s"
    using Suc.hyps(1)[OF n] Suc.prems by simp
  show ?case
    by (simp add: sma_loop.simps[of a index i] sma_loop.simps[of b index i] rd ih)
qed

lemma ema_loop_agree:
  "(\<And>j. j \<le> current_index \<Longrightarrow> vec_at a j = vec_at b j) \<Longrightarrow>
   ema_loop a current_index k i e = ema_loop b current_index k i e"
proof (induction "nat (current_index + 1 - i)" arbitrary: i e)
  case 0
  then have "current_index < i" by simp
  then show ?case by (simp add: ema_loop.simps)
next
  case (Suc n)
  from Suc.hyps(2) have le: "i \<le> current_index" by simp
  have n: "n = nat (current_index + 1 - (i + 1))" using Suc.hyps(2) by simp
  have rd: "vec_at a i = vec_at b i"
    using Suc.prems le by simp
  have ih: "\<And>s. ema_loop a current_index k (i + 1) s = ema_loop b current_index k (i + 1) s"
    using Suc.hyps(1)[OF n] Suc.prems by simp
  show ?case
    by (simp add: ema_loop.simps[of a current_index k i] ema_loop.simps[of b current_index k i] rd ih)
qed

lemma calculate_rsi_agree:
  "(\<And>j. j \<le> index \<Longrightarrow> vec_at a j = vec_at b j) \<Longrightarrow>
   calculate_rsi a index period = calculate_rsi b index period"
  by (simp add: calculate_rsi_def rsi_loop_agree[of index a b])

lemma calculate_sma_agree:
  "(\<And>j. j \<le> index \<Longrightarrow> vec_at a j = vec_at b j) \<Longrightarrow>
   calculate_sma a index period = calculate_sma b index period"
  by (simp add: calculate_sma_def sma_loop_agree[of index a b])

lemma ema_agree:
  "1 \<le> len \<Longrightarrow> (\<And>j. j \<le> index \<Longrightarrow> vec_at a j = vec_at b j) \<Longrightarrow>
   ema a index len = ema b index len"
  by (simp add: ema_def ema_loop_agree[of index a b])

lemma calculate_macd_agree:
  "(\<And>j. j \<le> index \<Longrightarrow> vec_at a j = vec_at b j) \<Longrightarrow>
   calculate_macd a index = calculate_macd b index"
  by (simp add: calculate_macd_def ema_agree[of _ index a b])

lemma strategy_step_agree:
  "(\<And>j. j \<le> i \<Longrightarrow> vec_at a j = vec_at b j) \<Longrightarrow>
   strategy_step a thr i st = strategy_step b thr i st"
  by (simp add: strategy_step_def calculate_rsi_agree[of i a b] calculate_macd_agree[of i a b]
      calculate_sma_agree[of i a b])

lemma indicators_defined:
  assumes "26 \<le> i" "i < int (length closes)"
  shows "\<exists>rsi macd sma20. calculate_rsi closes i 14 = Some rsi
           \<and> calculate_macd closes i = Some macd
           \<and> calculate_sma closes i 20 = Some sma20
           \<and> vec_at closes i = Some (closes ! nat i)"
proof -
  have 1: "calculate_rsi closes i 14 = Some (rsi_spec closes i 14)"
    using assms by (simp add: calculate_rsi_eq_spec)
  have 2: "ema closes i 12 = Some (ema_spec closes i 12)" "ema closes i 26 = Some (ema_spec closes i 26)"
    using assms by (simp_all add: ema_eq_spec)
  have 3: "0 \<le> i - 20 + 1" using assms by simp
  have 4: "calculate_sma closes i 20 = Some (sum_list (map (\<lambda>j. closes ! nat j) [i - 20 + 1..i]) / 20)"
    using sma_loop_sum[OF 3 assms(2), of 0] assms by (simp add: calculate_sma_def)
  have 5: "vec_at closes i = Some (closes ! nat i)" using assms by (simp add: vec_at_def)
  from 2 have 6: "calculate_macd closes i = Some (ema_spec closes i 12 - ema_spec closes i 26)"
    by (simp add: calculate_macd_def)
  from 1 6 4 5 show ?thesis by blast
qed

section \<open>One step of the scan, and the whole scan\<close>

lemma strategy_step_eq:
  assumes "calculate_rsi closes i 14 = Some rsi" "calculate_macd closes i = Some macd"
    "calculate_sma closes i 20 = Some sma20" "vec_at closes i = Some c"
  shows "strategy_step closes thr i st =
     Some (if \<not> in_position st \<and> rsi < 30 \<and> macd > 0 \<and> c > sma20
           then st\<lparr>in_position := True, entry_price := c\<rparr>
           else if in_position st \<and> (rsi > 60 \<or> c < sma20)
           then st\<lparr>total_return := total_return st + (c - entry_price st) / entry_price st,
                   wins := (if (c - entry_price st) / entry_price st > thr
                            then wins st + 1 else wins st),
                   trades := trades st + 1,
                   in_position := False\<rparr>
           else st)"
  using assms by (auto simp: strategy_step_def book_trade_def Let_def)

lemma strategy_step_cases:
  assumes "strategy_step closes thr i st = Some st'"
  shows "(\<not> in_position st \<and> in_position st' \<and> trades st' = trades st
            \<and> vec_at closes i = Some (entry_price st') \<and> entry_signal closes i)
       \<or> (in_position st \<and> \<not> in_position st' \<and> trades st' = trades st + 1)
       \<or> (st' = st \<and> (in_position st \<or> \<not> entry_signal closes i))"
proof -
  from assms obtain rsi macd sma20 c where
    d: "calculate_rsi closes i 14 = Some rsi" "calculate_macd closes i = Some macd"
       "calculate_sma closes i 20 = Some sma20" "vec_at closes i = Some c"
    by (auto simp: strategy_step_def split: bind_splits)
  from assms strategy_step_eq[OF d, of thr st] d show ?thesis
    by (auto simp: entry_signal_def split: if_splits)
qed

lemma strategy_step_total:
  assumes "26 \<le> i" "i < int (length closes)"
  shows "\<exists>st'. strategy_step closes thr i st = Some st'"
proof -
  from indicators_defined[OF assms] obtain rsi macd sma20 where
    d: "calculate_rsi closes i 14 = Some rsi" "calculate_macd closes i = Some macd"
       "calculate_sma closes i 20 = Some sma20" "vec_at closes i = Some (closes ! nat i)"
    by blast
  from strategy_step_eq[OF d] show ?thesis by blast
qed

lemma scan_accounts:
  "26 \<le> i \<Longrightarrow>
   \<exists>st' e x. scan_loop closes thr i st = Some st'
     \<and> scan_count closes thr i st entries exits = Some (e, x)
     \<and> trades st' = trades st + (x - exits)
     \<and> e - entries = (x - exits) + held st' - held st
     \<and> exits \<le> x
     \<and> (in_position st' \<longrightarrow> in_position st \<or> i < int (length closes))"
proof (induction "nat (int (length closes) - i)" arbitrary: i st entries exits)
  case 0
  then have "\<not> i < int (length closes)" by simp
  then show ?case by (simp add: scan_loop.simps scan_count.simps)
next
  case (Suc n)
  from Suc.hyps(2) have lt: "i < int (length closes)" by simp
  have n: "n = nat (int (length closes) - (i + 1))" using Suc.hyps(2) by simp
  from strategy_step_total[OF Suc.prems lt] obtain s1 where
    s1: "strategy_step closes thr i st = Some s1" by blast
  define en1 where "en1 = (if \<not> in_position st \<and> in_position s1 then entries + 1 else entries)"
  define ex1 where "ex1 = (if in_position st \<and> \<not> in_position s1 then exits + 1 else exits)"
  have i1: "26 \<le> i + 1" using Suc.prems by simp
  from Suc.hyps(1)[OF n i1, of s1 en1 ex1] obtain st' e x where
    r: "scan_loop closes thr (i + 1) s1 = Some st'"
       "scan_count closes thr (i + 1) s1 en1 ex1 = Some (e, x)"
       "trades st' = trades s1 + (x - ex1)"
       "e - en1 = (x - ex1) + held st' - held s1"
       "ex1 \<le> x"
    by blast
  have a: "scan_loop closes thr i st = Some st'"
    using lt s1 r(1) by (simp add: scan_loop.simps[of closes thr i])
  have b: "scan_count closes thr i st entries exits = Some (e, x)"
    using lt s1 r(2) by (simp add: scan_count.simps[of closes thr i] en1_def ex1_def)
  from strategy_step_cases[OF s1]
  have c: "trades st' = trades st + (x - exits) \<and> e - entries = (x - exits) + held st' - held st
           \<and> exits \<le> x"
    using r(3,4,5) by (auto simp: en1_def ex1_def held_def split: if_splits)
  from a b c lt show ?case by blast
qed

lemma scan_without_entry:
  "26 \<le> i \<Longrightarrow> \<not> in_position st \<Longrightarrow>
   \<forall>j\<in>set [i..int (length closes) - 1]. \<not> entry_signal closes j \<Longrightarrow>
   scan_loop closes thr i st = Some st"
proof (induction "nat (int (length closes) - i)" arbitrary: i)
  case 0
  then have "\<not> i < int (length closes)" by simp
  then show ?case by (simp add: scan_loop.simps)
next
  case (Suc n)
  from Suc.hyps(2) have lt: "i < int (length closes)" by simp
  have n: "n = nat (int (length closes) - (i + 1))" using Suc.hyps(2) by simp
  from strategy_step_total[OF Suc.prems(1) lt] obtain s1 where
    s1: "strategy_step closes thr i st = Some s1" by blast
  have "\<not> entry_signal closes i" using Suc.prems(3) lt by simp
  with strategy_step_cases[OF s1] Suc.prems(2) have eq: "s1 = st" by blast
  have i1: "26 \<le> i + 1" using Suc.prems by simp
  have "\<forall>j\<in>set [i + 1..int (length closes) - 1]. \<not> entry_signal closes j"
    using Suc.prems(3) by simp
  from Suc.hyps(1)[OF n i1 Suc.prems(2) this] s1 eq lt show ?case
    by (simp add: scan_loop.simps[of closes thr i])
qed

lemma scan_loop_reaches:
  "scan_reaches closes thr i st \<Longrightarrow> scan_loop closes thr i st = Some st' \<Longrightarrow>
   \<exists>k. scan_reaches closes thr k st'"
proof (induction "nat (int (length closes) - i)" arbitrary: i st)
  case 0
  then have "\<not> i < int (length closes)" by simp
  with 0 show ?case by (auto simp: scan_loop.simps)
next
  case (Suc n)
  from Suc.hyps(2) have lt: "i < int (length closes)" by simp
  have n: "n = nat (int (length closes) - (i + 1))" using Suc.hyps(2) by simp
  from Suc.prems(2) lt obtain s1 where
    s1: "strategy_step closes thr i st = Some s1" "scan_loop closes thr (i + 1) s1 = Some st'"
    by (auto simp: scan_loop.simps[of closes thr i] split: bind_splits)
  from scan_reaches.step[OF Suc.prems(1) lt s1(1)]
  have "scan_reaches closes thr (i + 1) s1" .
  from Suc.hyps(1)[OF n this s1(2)] show ?case .
qed

lemma scan_reaches_positive:
  assumes "\<forall>c\<in>set closes. 0 < c" "scan_reaches closes thr i st" "in_position st"
  shows "0 < entry_price st"
  using assms(2,3)
proof (induction rule: scan_reaches.induct)
  case start
  then show ?case by (simp add: init_state_def)
next
  case (step i st st')
  from strategy_step_cases[OF step.hyps(3)] step.prems
  consider "vec_at closes i = Some (entry_price st')" | "st' = st" by blast
  then show ?case
  proof cases
    case 1
    then have r: "0 \<le> i" "i < int (length closes)" "closes ! nat i = entry_price st'"
      by (auto simp: vec_at_def split: if_splits)
    then have "nat i < length closes" by simp
    then have "closes ! nat i \<in> set closes" by (rule nth_mem)
    with assms(1) r(3) show ?thesis by auto
  next
    case 2
    with step show ?thesis by simp
  qed
qed

lemma entry_preserves_positive:
  assumes "\<forall>c\<in>set closes. 0 < c" "strategy_step closes thr i st = Some st'"
    "in_position st \<longrightarrow> 0 < entry_price st" "in_position st'"
  shows "0 < entry_price st'"
proof -
  from strategy_step_cases[OF assms(2)] assms(4)
  consider "vec_at closes i = Some (entry_price st')" | "st' = st" by blast
  then show ?thesis
  proof cases
    case 1
    then have r: "0 \<le> i" "i < int (length closes)" "closes ! nat i = entry_price st'"
      by (auto simp: vec_at_def split: if_splits)
    then have "nat i < length closes" by simp
    then have "closes ! nat i \<in> set closes" by (rule nth_mem)
    with assms(1) r(3) show ?thesis by auto
  next
    case 2
    with assms show ?thesis by simp
  qed
qed

section \<open>The accumulators of \<^verbatim>\<open>calculate_rsi\<close> in machine arithmetic\<close>

declare rsi_loop_ieee.simps [simp del]

lemma fin_nonneg:
  assumes "mono (round_to F)" "round_to F 0 = 0" "0 \<le> largest F" "0 \<le> x"
  shows "nonneg_or_inf (fin F x)"
proof -
  have "round_to F 0 \<le> round_to F x" using assms(1,4) by (rule monoD)
  then have "0 \<le> round_to F x" using assms(2) by simp
  then show ?thesis using assms(3) by (simp add: fin_def nonneg_or_inf_def Let_def)
qed

lemma fin_percent:
  assumes "mono (round_to F)" "round_to F 0 = 0" "round_to F 100 = 100" "100 \<le> largest F"
    "0 \<le> x" "x \<le> 100"
  shows "\<exists>r. fin F x = Finite r \<and> 0 \<le> r \<and> r \<le> 100"
proof -
  have "round_to F 0 \<le> round_to F x" using assms(1,5) by (rule monoD)
  then have lo: "0 \<le> round_to F x" using assms(2) by simp
  have "round_to F x \<le> round_to F 100" using assms(1,6) by (rule monoD)
  then have hi: "round_to F x \<le> 100" using assms(3) by simp
  from lo hi assms(4) show ?thesis by (simp add: fin_def Let_def)
qed

lemma fin_ge_one:
  assumes "mono (round_to F)" "round_to F 1 = 1" "0 \<le> largest F" "1 \<le> x"
  shows "fin F x = PInf \<or> (\<exists>s. fin F x = Finite s \<and> 1 \<le> s)"
proof -
  have "round_to F 1 \<le> round_to F x" using assms(1,4) by (rule monoD)
  then have "1 \<le> round_to F x" using assms(2) by simp
  then show ?thesis using assms(3) by (simp add: fin_def Let_def)
qed

lemma dadd_nonneg:
  assumes "mono (round_to F)" "round_to F 0 = 0" "0 \<le> largest F"
    "nonneg_or_inf a" "nonneg_or_inf b"
  shows "nonneg_or_inf (dadd F a b)"
proof (cases a)
  case (Finite x)
  then show ?thesis
  proof (cases b)
    case (Finite y)
    with \<open>a = Finite x\<close> assms(4,5) have "0 \<le> x + y" by (simp add: nonneg_or_inf_def)
    from fin_nonneg[OF assms(1,2,3) this] Finite \<open>a = Finite x\<close> show ?thesis by simp
  qed (use assms(5) Finite in \<open>simp_all add: nonneg_or_inf_def\<close>)
next
  case PInf
  then show ?thesis using assms(5) by (cases b) (simp_all add: nonneg_or_inf_def)
qed (use assms(4) in \<open>simp_all add: nonneg_or_inf_def\<close>)

lemma sign_split:
  "d \<noteq> NaN \<Longrightarrow>
   (dless (Finite 0) d \<longrightarrow> nonneg_or_inf d) \<and> (\<not> dless (Finite 0) d \<longrightarrow> nonneg_or_inf (dneg d))"
  by (cases d) (simp_all add: nonneg_or_inf_def)

lemma change_sorted:
  assumes "is_finite c" "is_finite p"
  shows "(dless (Finite 0) (dsub F c p) \<longrightarrow> nonneg_or_inf (dsub F c p))
       \<and> (\<not> dless (Finite 0) (dsub F c p) \<longrightarrow> nonneg_or_inf (dneg (dsub F c p)))"
proof -
  from assms obtain x y where c: "c = Finite x" and p: "p = Finite y"
    by (auto simp: is_finite_def split: double.splits)
  have "dsub F c p \<noteq> NaN" by (simp add: c p dsub_def fin_def Let_def)
  then show ?thesis by (rule sign_split)
qed

lemma vec_at_ieee_finite:
  assumes "\<forall>c\<in>set closes. is_finite c" "0 \<le> i" "i < int (length closes)"
  shows "\<exists>c. vec_at_ieee closes i = Some c \<and> is_finite c"
proof -
  have "nat i < length closes" using assms(2,3) by simp
  then have "closes ! nat i \<in> set closes" by (rule nth_mem)
  with assms show ?thesis by (simp add: vec_at_ieee_def)
qed

lemma rsi_loop_ieee_nonneg:
  assumes "mono (round_to F)" "round_to F 0 = 0" "0 \<le> largest F"
    "\<forall>c\<in>set closes. is_finite c" "index < int (length closes)" "index < 2 ^ 31 - 1"
  shows "1 \<le> i \<Longrightarrow> nonneg_or_inf gain \<Longrightarrow> nonneg_or_inf loss \<Longrightarrow>
     \<exists>g l. rsi_loop_ieee F closes index i gain loss = Some (g, l)
       \<and> nonneg_or_inf g \<and> nonneg_or_inf l"
proof (induction "nat (index + 1 - i)" arbitrary: i gain loss)
  case 0
  then have "index < i" by simp
  with 0 show ?case by (simp add: rsi_loop_ieee.simps)
next
  case (Suc n)
  from Suc.hyps(2) have le: "i \<le> index" by simp
  have n: "n = nat (index + 1 - (i + 1))" using Suc.hyps(2) by simp
  have i1: "1 \<le> i + 1" using Suc.prems(1) by simp
  from vec_at_ieee_finite[OF assms(4), of i] Suc.prems(1) le assms(5)
  obtain c where c: "vec_at_ieee closes i = Some c" "is_finite c" by auto
  from vec_at_ieee_finite[OF assms(4), of "i - 1"] Suc.prems(1) le assms(5)
  obtain p where p: "vec_at_ieee closes (i - 1) = Some p" "is_finite p" by auto
  have w: "int32 (i + 1)" using Suc.prems(1) le assms(6) by (simp add: int32_def)
  note ch = change_sorted[OF c(2) p(2), of F]
  show ?case
  proof (cases "dless (Finite 0) (dsub F c p)")
    case True
    with ch have "nonneg_or_inf (dsub F c p)" by simp
    from dadd_nonneg[OF assms(1,2,3) Suc.prems(2) this]
    have g: "nonneg_or_inf (dadd F gain (dsub F c p))" .
    from Suc.hyps(1)[OF n i1 g Suc.prems(3)] le c(1) p(1) w True show ?thesis
      by (simp add: rsi_loop_ieee.simps[of F closes index i])
  next
    case False
    with ch have "nonneg_or_inf (dneg (dsub F c p))" by simp
    from dadd_nonneg[OF assms(1,2,3) Suc.prems(3) this]
    have l: "nonneg_or_inf (dsub F loss (dsub F c p))" by (simp add: dsub_def)
    from Suc.hyps(1)[OF n i1 Suc.prems(2) l] le c(1) p(1) w False show ?thesis
      by (simp add: rsi_loop_ieee.simps[of F closes index i])
  qed
qed

lemma rsi_value_ieee:
  assumes F: "mono (round_to F)" "round_to F 0 = 0" "round_to F 1 = 1" "round_to F 100 = 100"
    "100 \<le> largest F"
    and g: "nonneg_or_inf g" and l: "nonneg_or_inf l"
    and nz: "\<not> deq l (Finite 0)" and nb: "(g, l) \<noteq> (PInf, PInf)"
  shows "\<exists>r. dsub F (Finite 100) (ddiv F (Finite 100) (dadd F (Finite 1) (ddiv F g l))) = Finite r
           \<and> 0 \<le> r \<and> r \<le> 100"
proof -
  have big: "0 \<le> largest F" using F(5) by simp
  have rs: "nonneg_or_inf (ddiv F g l)"
  proof (cases g)
    case (Finite x)
    show ?thesis
    proof (cases l)
      case (Finite y)
      with l nz have "0 < y" by (simp add: nonneg_or_inf_def deq_def)
      moreover from \<open>g = Finite x\<close> g have "0 \<le> x" by (simp add: nonneg_or_inf_def)
      ultimately have "0 \<le> x / y" by simp
      from fin_nonneg[OF F(1,2) big this] \<open>0 < y\<close> Finite \<open>g = Finite x\<close> show ?thesis by simp
    qed (use l \<open>g = Finite x\<close> in \<open>simp_all add: nonneg_or_inf_def\<close>)
  next
    case PInf
    show ?thesis
    proof (cases l)
      case (Finite y)
      with l nz have "0 < y" by (simp add: nonneg_or_inf_def deq_def)
      with Finite PInf show ?thesis by (simp add: nonneg_or_inf_def)
    qed (use l nb PInf in \<open>simp_all add: nonneg_or_inf_def\<close>)
  qed (use g in \<open>simp_all add: nonneg_or_inf_def\<close>)
  have t: "dadd F (Finite 1) (ddiv F g l) = PInf
         \<or> (\<exists>s. dadd F (Finite 1) (ddiv F g l) = Finite s \<and> 1 \<le> s)"
  proof (cases "ddiv F g l")
    case (Finite q)
    with rs have "1 \<le> 1 + q" by (simp add: nonneg_or_inf_def)
    from fin_ge_one[OF F(1,3) big this] Finite show ?thesis by simp
  qed (use rs in \<open>simp_all add: nonneg_or_inf_def\<close>)
  have u: "\<exists>r. ddiv F (Finite 100) (dadd F (Finite 1) (ddiv F g l)) = Finite r \<and> 0 \<le> r \<and> r \<le> 100"
  proof -
    from t consider "dadd F (Finite 1) (ddiv F g l) = PInf"
      | s where "dadd F (Finite 1) (ddiv F g l) = Finite s" "1 \<le> s" by blast
    then show ?thesis
    proof cases
      case 1
      then show ?thesis by simp
    next
      case 2
      then have "0 \<le> 100 / s" "100 / s \<le> 100" by (simp_all add: divide_le_eq)
      from fin_percent[OF F(1,2,4,5) this] 2 show ?thesis by simp
    qed
  qed
  then obtain r where r: "ddiv F (Finite 100) (dadd F (Finite 1) (ddiv F g l)) = Finite r"
    "0 \<le> r" "r \<le> 100" by blast
  then have "0 \<le> 100 - r" "100 - r \<le> 100" by simp_all
  from fin_percent[OF F(1,2,4,5) this] r(1) show ?thesis by (simp add: dsub_def)
qed

section \<open>The indicators against their specification\<close>

text \<open>
  Claim C4. For a series \<open>closes\<close> and an index \<open>i\<close> of it with \<open>i \<ge> period\<close>,
  \<open>calculate_rsi\<close> returns the RSI of the specification: \<open>gain\<close> is the sum of the positive
  day-over-day changes and \<open>loss\<close> the sum of the absolute values of the negative ones,
  over the bars \<open>i - period + 1 .. i\<close>, each bar compared with the bar before it (the first
  comparison is against bar \<open>i - period\<close>); the result is 100 when \<open>loss = 0\<close> and
  \<open>100 - 100 / (1 + gain / loss)\<close> otherwise.
\<close>

theorem calculate_rsi_formula:
  assumes "period \<le> i" "i < int (length closes)"
  shows "calculate_rsi closes i period = Some (rsi_spec closes i period)"
  using assms by (rule calculate_rsi_eq_spec)

theorem calculate_rsi_formula_witness:
  "(14 :: int) \<le> 27 \<and> 27 < int (length rally_closes)
   \<and> calculate_rsi rally_closes 27 14 = Some (rsi_spec rally_closes 27 14)
   \<and> rsi_spec rally_closes 27 14 = 2000 / 21"
proof -
  have h1: "(14 :: int) \<le> 27" by simp
  have h2: "27 < int (length rally_closes)" by (simp add: rally_closes_def dip_closes_def)
  have v: "rsi_spec rally_closes 27 14 = 2000 / 21" by code_simp
  from calculate_rsi_formula[OF h1 h2] h1 h2 v show ?thesis by simp
qed

text \<open>
  Claim C5, amended. In machine arithmetic, with period 14, \<open>calculate_rsi\<close> returns
  exactly 50 at every index below 14, on every series. On a series of finite doubles, at
  an index \<open>i\<close> of the series below \<open>2^31 - 1\<close> and with a period for which
  \<open>i - period + 1\<close> is an \<^verbatim>\<open>int\<close>, it returns a finite value between 0 and 100, unless
  the gain and the loss of the window have both overflowed to infinity. This holds for
  every rounding of the doubles that is monotone and keeps 0, 1 and 100.
\<close>

theorem calculate_rsi_ieee_range:
  "(i < 14 \<longrightarrow> calculate_rsi_ieee F closes i 14 = Some (Finite 50))
   \<and> (mono (round_to F) \<and> round_to F 0 = 0 \<and> round_to F 1 = 1 \<and> round_to F 100 = 100
        \<and> 100 \<le> largest F
        \<and> (\<forall>c\<in>set closes. is_finite c)
        \<and> i < int (length closes) \<and> i < 2 ^ 31 - 1 \<and> i - period < 2 ^ 31 - 1
        \<and> rsi_loop_ieee F closes i (i - period + 1) (Finite 0) (Finite 0) \<noteq> Some (PInf, PInf)
      \<longrightarrow> (\<exists>r. calculate_rsi_ieee F closes i period = Some (Finite r) \<and> 0 \<le> r \<and> r \<le> 100))"
proof (rule conjI; rule impI)
  assume "i < 14"
  then show "calculate_rsi_ieee F closes i 14 = Some (Finite 50)"
    by (simp add: calculate_rsi_ieee_def)
next
  assume a: "mono (round_to F) \<and> round_to F 0 = 0 \<and> round_to F 1 = 1 \<and> round_to F 100 = 100
        \<and> 100 \<le> largest F
        \<and> (\<forall>c\<in>set closes. is_finite c)
        \<and> i < int (length closes) \<and> i < 2 ^ 31 - 1 \<and> i - period < 2 ^ 31 - 1
        \<and> rsi_loop_ieee F closes i (i - period + 1) (Finite 0) (Finite 0) \<noteq> Some (PInf, PInf)"
  then have F: "mono (round_to F)" "round_to F 0 = 0" "round_to F 1 = 1" "round_to F 100 = 100"
    "100 \<le> largest F" by simp_all
  have big: "0 \<le> largest F" using F(5) by simp
  show "\<exists>r. calculate_rsi_ieee F closes i period = Some (Finite r) \<and> 0 \<le> r \<and> r \<le> 100"
  proof (cases "i < period")
    case True
    then show ?thesis by (simp add: calculate_rsi_ieee_def)
  next
    case False
    then have s: "1 \<le> i - period + 1" by simp
    have w: "int32 (i - period)" "int32 (i - period + 1)"
      using a False by (simp_all add: int32_def)
    have z: "nonneg_or_inf (Finite 0)" by (simp add: nonneg_or_inf_def)
    from a have fc: "\<forall>c\<in>set closes. is_finite c" and il: "i < int (length closes)"
      and im: "i < 2 ^ 31 - 1" by simp_all
    from rsi_loop_ieee_nonneg[OF F(1,2) big fc il im s z z]
    obtain g l where gl: "rsi_loop_ieee F closes i (i - period + 1) (Finite 0) (Finite 0) = Some (g, l)"
      "nonneg_or_inf g" "nonneg_or_inf l" by blast
    with a have nb: "(g, l) \<noteq> (PInf, PInf)" by simp
    show ?thesis
    proof (cases "deq l (Finite 0)")
      case True
      with False w gl(1) show ?thesis by (simp add: calculate_rsi_ieee_def)
    next
      case nz: False
      from rsi_value_ieee[OF F gl(2,3) nz nb] False w gl(1) nz show ?thesis
        by (simp add: calculate_rsi_ieee_def Let_def)
    qed
  qed
qed

theorem calculate_rsi_ieee_range_witness:
  "mono (round_to exact_binary64) \<and> round_to exact_binary64 0 = 0
   \<and> round_to exact_binary64 1 = 1 \<and> round_to exact_binary64 100 = 100
   \<and> 100 \<le> largest exact_binary64
   \<and> list_all is_finite rally_ieee
   \<and> 27 < int (length rally_ieee) \<and> (27 :: int) < 2 ^ 31 - 1 \<and> (27 :: int) - 14 < 2 ^ 31 - 1
   \<and> rsi_loop_ieee exact_binary64 rally_ieee 27 (27 - 14 + 1) (Finite 0) (Finite 0)
        = Some (Finite 20, Finite 1)
   \<and> calculate_rsi_ieee exact_binary64 rally_ieee 27 14 = Some (Finite (2000 / 21))
   \<and> (0 :: real) \<le> 2000 / 21 \<and> (2000 :: real) / 21 \<le> 100
   \<and> (5 :: int) < 14
   \<and> calculate_rsi_ieee exact_binary64 rally_ieee 5 14 = Some (Finite 50)"
proof -
  have f: "mono (round_to exact_binary64)" "round_to exact_binary64 0 = 0"
    "round_to exact_binary64 1 = 1" "round_to exact_binary64 100 = 100"
    "100 \<le> largest exact_binary64"
    by (simp_all add: exact_binary64_def mono_def)
  have c: "list_all is_finite rally_ieee" by (simp add: rally_ieee_def rally_closes_def dip_closes_def is_finite_def)
  then have c': "\<forall>c\<in>set rally_ieee. is_finite c" by (simp only: list_all_iff)
  have n: "27 < int (length rally_ieee)" "(27 :: int) < 2 ^ 31 - 1" "(27 :: int) - 14 < 2 ^ 31 - 1"
    "(5 :: int) < 14"
    by (simp_all add: rally_ieee_def rally_closes_def dip_closes_def)
  have l: "rsi_loop_ieee exact_binary64 rally_ieee 27 (27 - 14 + 1) (Finite 0) (Finite 0)
        = Some (Finite 20, Finite 1)"
    by (simp add: rsi_loop_ieee.simps rally_ieee_def rally_closes_def dip_closes_def int32_def
        vec_at_ieee_def dsub_def fin_def exact_binary64_def Let_def)
  then have nb: "rsi_loop_ieee exact_binary64 rally_ieee 27 (27 - 14 + 1) (Finite 0) (Finite 0)
        \<noteq> Some (PInf, PInf)" by simp
  have v: "calculate_rsi_ieee exact_binary64 rally_ieee 27 14 = Some (Finite (2000 / 21))"
    using l by (simp add: calculate_rsi_ieee_def int32_def deq_def dsub_def fin_def
        exact_binary64_def Let_def)
  from calculate_rsi_ieee_range[of 27 exact_binary64 rally_ieee 14] f c' n nb v
  have r: "(0 :: real) \<le> 2000 / 21 \<and> (2000 :: real) / 21 \<le> 100" by auto
  from calculate_rsi_ieee_range[of 5 exact_binary64 rally_ieee 14] n(4)
  have w: "calculate_rsi_ieee exact_binary64 rally_ieee 5 14 = Some (Finite 50)" by blast
  from f c n l v r w show ?thesis by simp
qed

text \<open>
  As claim C5 is stated, for every series, it fails: on the finite doubles of
  \<open>swing_closes\<close> the gain and the loss both overflow and the value is NaN, and on
  \<open>nan_closes\<close>, where the last close is NaN, the value is NaN as well. NaN is not
  between 0 and 100.
\<close>

theorem calculate_rsi_range_counterexample:
  "list_all is_finite swing_closes
   \<and> calculate_rsi_ieee exact_binary64 swing_closes 15 14 = Some NaN
   \<and> calculate_rsi_ieee exact_binary64 nan_closes 15 14 = Some NaN"
proof -
  have a: "list_all is_finite swing_closes"
    by (simp add: swing_closes_def is_finite_def Let_def)
  have b: "calculate_rsi_ieee exact_binary64 swing_closes 15 14 = Some NaN"
    by (simp add: calculate_rsi_ieee_def rsi_loop_ieee.simps swing_closes_def int32_def
        vec_at_ieee_def dsub_def deq_def fin_def exact_binary64_def Let_def)
  have c: "calculate_rsi_ieee exact_binary64 nan_closes 15 14 = Some NaN"
    by (simp add: calculate_rsi_ieee_def rsi_loop_ieee.simps nan_closes_def int32_def
        vec_at_ieee_def dsub_def deq_def fin_def exact_binary64_def Let_def)
  from a b c show ?thesis by simp
qed

text \<open>
  Claim C6. At an index \<open>i\<close> of the series, \<open>calculate_sma\<close> returns exactly \<open>closes[i]\<close>
  when \<open>i < p\<close>, and the arithmetic mean of the \<open>p\<close> closes \<open>closes[i-p+1 .. i]\<close> when
  \<open>i \<ge> p\<close>. (A period of 0 is left out: the code divides by it.)
\<close>

theorem calculate_sma_mean:
  assumes "0 \<le> i" "i < int (length closes)" "p \<noteq> 0"
  shows "calculate_sma closes i p =
           Some (if i < p then closes ! nat i
                 else sum_list (sma_window closes i p) / real_of_int p)
         \<and> (0 < p \<and> p \<le> i \<longrightarrow> length (sma_window closes i p) = nat p
                \<and> set (sma_window closes i p) \<subseteq> set closes)"
proof -
  have a: "calculate_sma closes i p =
           Some (if i < p then closes ! nat i
                 else sum_list (sma_window closes i p) / real_of_int p)"
  proof (cases "i < p")
    case True
    then show ?thesis using assms by (simp add: calculate_sma_def vec_at_def)
  next
    case False
    then have "0 \<le> i - p + 1" by simp
    from sma_loop_sum[OF this assms(2), of 0] False show ?thesis
      by (simp add: calculate_sma_def sma_window_def)
  qed
  have b: "length (sma_window closes i p) = nat p" if "0 < p" "p \<le> i"
    using that by (simp add: sma_window_def)
  have c: "set (sma_window closes i p) \<subseteq> set closes" if "0 < p" "p \<le> i"
    using that assms by (auto simp: sma_window_def)
  from a b c show ?thesis by blast
qed

theorem calculate_sma_mean_witness:
  "(0 :: int) \<le> 26 \<and> 26 < int (length dip_closes) \<and> (20 :: int) \<noteq> 0
   \<and> (0 :: int) < 20 \<and> (20 :: int) \<le> 26
   \<and> calculate_sma dip_closes 26 20 = Some (169 / 20)
   \<and> sma_window dip_closes 26 20
        = [1, 1, 1, 1, 1, 11, 11, 11, 11, 11, 11, 11, 11, 11, 11, 11, 11, 11, 11, 10]
   \<and> (0 :: int) \<le> 19 \<and> 19 < int (length dip_closes)
   \<and> calculate_sma dip_closes 19 20 = Some 11"
proof -
  have h: "(0 :: int) \<le> 26" "26 < int (length dip_closes)" "(20 :: int) \<noteq> 0"
    "(0 :: int) \<le> 19" "19 < int (length dip_closes)"
    by (simp_all add: dip_closes_def)
  have w: "sma_window dip_closes 26 20
        = [1, 1, 1, 1, 1, 11, 11, 11, 11, 11, 11, 11, 11, 11, 11, 11, 11, 11, 11, 10]"
    by code_simp
  have e: "dip_closes ! nat 19 = 11" by code_simp
  from calculate_sma_mean[OF h(1) h(2) h(3)] have
    a: "calculate_sma dip_closes 26 20 = Some (sum_list (sma_window dip_closes 26 20) / 20)"
    by simp
  from calculate_sma_mean[OF h(4) h(5) h(3)] e have
    b: "calculate_sma dip_closes 19 20 = Some 11"
    by simp
  from a b w h show ?thesis by simp
qed

text \<open>
  Claim C7. When the seed index \<open>i - len + 1\<close> and the index \<open>i\<close> are indices of the
  series, with \<open>i \<ge> len - 1\<close>, \<open>ema\<close> returns the EMA of the specification: seeded with the
  sample \<open>len - 1\<close> bars before \<open>i\<close>, then every later sample up to \<open>i\<close> folded in by
  \<open>ema = sample * k + ema * (1 - k)\<close> with \<open>k = 2 / (len + 1)\<close>. At an index \<open>i \<ge> 25\<close> of
  the series, \<open>calculate_macd\<close> returns exactly \<open>EMA(closes, i, 12) - EMA(closes, i, 26)\<close>.
\<close>

theorem ema_recurrence_macd:
  "(len - 1 \<le> i \<and> i < int (length data) \<and> i - len + 1 < int (length data)
      \<longrightarrow> ema data i len = Some (ema_spec data i len))
   \<and> (25 \<le> i \<and> i < int (length data)
      \<longrightarrow> calculate_macd data i = Some (ema_spec data i 12 - ema_spec data i 26)
        \<and> ema data i 12 = Some (ema_spec data i 12)
        \<and> ema data i 26 = Some (ema_spec data i 26))"
proof (rule conjI; rule impI)
  assume "len - 1 \<le> i \<and> i < int (length data) \<and> i - len + 1 < int (length data)"
  then show "ema data i len = Some (ema_spec data i len)"
    using ema_eq_spec by blast
next
  assume a: "25 \<le> i \<and> i < int (length data)"
  then have "ema data i 12 = Some (ema_spec data i 12)" "ema data i 26 = Some (ema_spec data i 26)"
    by (simp_all add: ema_eq_spec)
  then show "calculate_macd data i = Some (ema_spec data i 12 - ema_spec data i 26)
        \<and> ema data i 12 = Some (ema_spec data i 12)
        \<and> ema data i 26 = Some (ema_spec data i 26)"
    by (simp add: calculate_macd_def)
qed

theorem ema_recurrence_macd_witness:
  "(3 :: int) - 1 \<le> 2 \<and> 2 < int (length [2, 4, 8 :: real])
   \<and> (2 :: int) - 3 + 1 < int (length [2, 4, 8 :: real])
   \<and> ema [2, 4, 8] 2 3 = Some (11 / 2)
   \<and> (25 :: int) \<le> 26 \<and> 26 < int (length dip_closes)
   \<and> calculate_macd dip_closes 26 = Some (ema_spec dip_closes 26 12 - ema_spec dip_closes 26 26)
   \<and> ema_spec dip_closes 26 12 = 141 / 13"
proof -
  have h: "(3 :: int) - 1 \<le> 2 \<and> 2 < int (length [2, 4, 8 :: real])
     \<and> (2 :: int) - 3 + 1 < int (length [2, 4, 8 :: real])" by simp
  have g: "(25 :: int) \<le> 26 \<and> 26 < int (length dip_closes)" by (simp add: dip_closes_def)
  have v: "ema_spec [2, 4, 8] 2 3 = 11 / 2" "ema_spec dip_closes 26 12 = 141 / 13"
    by code_simp+
  from ema_recurrence_macd[of 3 2 "[2, 4, 8]"] h v
  have a: "ema [2, 4, 8] 2 3 = Some (11 / 2)" by simp
  from ema_recurrence_macd[of 3 26 dip_closes] g
  have b: "calculate_macd dip_closes 26 = Some (ema_spec dip_closes 26 12 - ema_spec dip_closes 26 26)"
    by blast
  from h g a b v show ?thesis by simp
qed

text \<open>
  Claim C8. At every index \<open>i\<close> that \<open>run_strategy\<close> scans (\<open>26 \<le> i < size\<close>), every
  element read by \<open>calculate_rsi\<close>, by \<open>ema\<close> (through \<open>calculate_macd\<close>) and by
  \<open>calculate_sma\<close> lies at an index between 0 and \<open>i\<close>: each of them, and the whole step
  of the scan, returns on the series cut after bar \<open>i\<close> (where any read below 0 or
  above \<open>i\<close> is a read outside the vector), and returns there what it returns on the
  whole series.
\<close>

theorem indicator_reads_in_bounds:
  assumes "26 \<le> i" "i < int (length closes)"
  shows "(\<exists>rsi. calculate_rsi (take (nat i + 1) closes) i 14 = Some rsi
              \<and> calculate_rsi closes i 14 = Some rsi)
       \<and> (\<exists>e12. ema (take (nat i + 1) closes) i 12 = Some e12 \<and> ema closes i 12 = Some e12)
       \<and> (\<exists>e26. ema (take (nat i + 1) closes) i 26 = Some e26 \<and> ema closes i 26 = Some e26)
       \<and> (\<exists>macd. calculate_macd (take (nat i + 1) closes) i = Some macd
              \<and> calculate_macd closes i = Some macd)
       \<and> (\<exists>sma20. calculate_sma (take (nat i + 1) closes) i 20 = Some sma20
              \<and> calculate_sma closes i 20 = Some sma20)
       \<and> (\<exists>st'. strategy_step (take (nat i + 1) closes) thr i st = Some st'
              \<and> strategy_step closes thr i st = Some st')"
proof -
  have ag: "\<And>j. j \<le> i \<Longrightarrow> vec_at (take (nat i + 1) closes) j = vec_at closes j"
    by (rule vec_at_take[OF _ assms(2)])
  from indicators_defined[OF assms] obtain rsi macd sma20 where
    d: "calculate_rsi closes i 14 = Some rsi" "calculate_macd closes i = Some macd"
       "calculate_sma closes i 20 = Some sma20" "vec_at closes i = Some (closes ! nat i)"
    by blast
  have e: "ema closes i 12 = Some (ema_spec closes i 12)" "ema closes i 26 = Some (ema_spec closes i 26)"
    using assms by (simp_all add: ema_eq_spec)
  have s: "\<exists>st'. strategy_step closes thr i st = Some st'"
    using d by (simp add: strategy_step_def)
  have t: "calculate_rsi (take (nat i + 1) closes) i 14 = calculate_rsi closes i 14"
    "ema (take (nat i + 1) closes) i 12 = ema closes i 12"
    "ema (take (nat i + 1) closes) i 26 = ema closes i 26"
    "calculate_macd (take (nat i + 1) closes) i = calculate_macd closes i"
    "calculate_sma (take (nat i + 1) closes) i 20 = calculate_sma closes i 20"
    "strategy_step (take (nat i + 1) closes) thr i st = strategy_step closes thr i st"
    by (simp_all only: calculate_rsi_agree[OF ag] calculate_macd_agree[OF ag]
        calculate_sma_agree[OF ag] ema_agree[of 12, OF _ ag] ema_agree[of 26, OF _ ag]
        strategy_step_agree[OF ag])
  show ?thesis
    unfolding t using d e s by simp
qed

theorem indicator_reads_in_bounds_witness:
  "(26 :: int) \<le> 26 \<and> 26 < int (length rally_closes)
   \<and> take (nat 26 + 1) rally_closes = dip_closes
   \<and> calculate_rsi dip_closes 26 14 = Some 0
   \<and> calculate_rsi rally_closes 26 14 = Some 0
   \<and> calculate_sma dip_closes 26 20 = Some (169 / 20)
   \<and> calculate_sma rally_closes 26 20 = Some (169 / 20)
   \<and> ema dip_closes 26 12 = Some (141 / 13)
   \<and> ema rally_closes 26 12 = Some (141 / 13)
   \<and> calculate_macd dip_closes 26 = calculate_macd rally_closes 26
   \<and> strategy_step dip_closes 0 26 init_state = Some (entered_at 10)
   \<and> strategy_step rally_closes 0 26 init_state = Some (entered_at 10)"
proof -
  have h: "(26 :: int) \<le> 26" "26 < int (length rally_closes)"
    by (simp_all add: rally_closes_def dip_closes_def)
  have t: "take (nat 26 + 1) rally_closes = dip_closes"
    by (simp add: rally_closes_def dip_closes_def)
  have v: "calculate_rsi rally_closes 26 14 = Some 0"
    "calculate_sma rally_closes 26 20 = Some (169 / 20)"
    "ema rally_closes 26 12 = Some (141 / 13)"
    "strategy_step rally_closes 0 26 init_state = Some (entered_at 10)"
    by code_simp+
  from indicator_reads_in_bounds[OF h, of 0 init_state] v
  have "calculate_rsi dip_closes 26 14 = Some 0
      \<and> calculate_sma dip_closes 26 20 = Some (169 / 20)
      \<and> ema dip_closes 26 12 = Some (141 / 13)
      \<and> calculate_macd dip_closes 26 = calculate_macd rally_closes 26
      \<and> strategy_step dip_closes 0 26 init_state = Some (entered_at 10)"
    unfolding t by auto
  with h t v show ?thesis by simp
qed

section \<open>The strategy engine\<close>

text \<open>
  Claim C1. At every scanned index \<open>i \<ge> 26\<close> the three indicators return, and the step
  does exactly one of three things. When the state is FLAT and RSI < 30, MACD > 0 and
  \<open>closes[i]\<close> > SMA20 all hold, the state becomes LONG with \<open>entry_price = closes[i]\<close>
  and nothing else changes. Otherwise, when the state is LONG and RSI > 60 or
  \<open>closes[i]\<close> < SMA20 holds, the state becomes FLAT, the return fraction
  \<open>(closes[i] - entry_price) / entry_price\<close> is added to the total return, the trade
  count grows by one and the win count grows by one exactly when the return fraction is
  above the profit threshold. Otherwise the state is unchanged. So at most one of the two
  transitions happens at an index. The scan is this step followed by the scan from
  \<open>i + 1\<close>.
\<close>

theorem strategy_step_transitions:
  assumes "26 \<le> i" "i < int (length closes)"
  shows "\<exists>rsi macd sma20.
     calculate_rsi closes i 14 = Some rsi
     \<and> calculate_macd closes i = Some macd
     \<and> calculate_sma closes i 20 = Some sma20
     \<and> strategy_step closes profit_threshold i st =
         Some (if \<not> in_position st \<and> rsi < 30 \<and> macd > 0 \<and> closes ! nat i > sma20
               then st\<lparr>in_position := True, entry_price := closes ! nat i\<rparr>
               else if in_position st \<and> (rsi > 60 \<or> closes ! nat i < sma20)
               then st\<lparr>total_return :=
                         total_return st + (closes ! nat i - entry_price st) / entry_price st,
                       wins := (if (closes ! nat i - entry_price st) / entry_price st
                                     > profit_threshold
                                then wins st + 1 else wins st),
                       trades := trades st + 1,
                       in_position := False\<rparr>
               else st)
     \<and> scan_loop closes profit_threshold i st =
         strategy_step closes profit_threshold i st \<bind> scan_loop closes profit_threshold (i + 1)"
proof -
  from indicators_defined[OF assms] obtain rsi macd sma20 where
    d: "calculate_rsi closes i 14 = Some rsi" "calculate_macd closes i = Some macd"
       "calculate_sma closes i 20 = Some sma20" "vec_at closes i = Some (closes ! nat i)"
    by blast
  have l: "scan_loop closes profit_threshold i st =
         strategy_step closes profit_threshold i st \<bind> scan_loop closes profit_threshold (i + 1)"
    using assms(2) by (simp add: scan_loop.simps[of closes profit_threshold i])
  from strategy_step_eq[OF d, of profit_threshold st] d(1,2,3) l show ?thesis by blast
qed

theorem strategy_step_transitions_witness:
  "(26 :: int) \<le> 26 \<and> 26 < int (length rally_closes) \<and> (26 :: int) \<le> 27
   \<and> 27 < int (length rally_closes)
   \<and> strategy_step rally_closes (1 / 100) 26 init_state
       = Some \<lparr>wins = 0, trades = 0, total_return = 0, in_position = True, entry_price = 10\<rparr>
   \<and> strategy_step rally_closes (1 / 100) 27
         \<lparr>wins = 0, trades = 0, total_return = 0, in_position = True, entry_price = 10\<rparr>
       = Some \<lparr>wins = 1, trades = 1, total_return = 2, in_position = False, entry_price = 10\<rparr>"
proof -
  have h: "(26 :: int) \<le> 26" "26 < int (length rally_closes)" "(26 :: int) \<le> 27"
    "27 < int (length rally_closes)"
    by (simp_all add: rally_closes_def dip_closes_def)
  have v26: "calculate_rsi rally_closes 26 14 = Some 0"
    "map_option (\<lambda>m. 0 < m) (calculate_macd rally_closes 26) = Some True"
    "calculate_sma rally_closes 26 20 = Some (169 / 20)"
    "rally_closes ! nat 26 = 10"
    by code_simp+
  have v27: "calculate_rsi rally_closes 27 14 = Some (2000 / 21)"
    "rally_closes ! nat 27 = 30"
    by code_simp+
  from strategy_step_transitions[OF h(1) h(2), of "1 / 100" init_state] v26
  have a: "strategy_step rally_closes (1 / 100) 26 init_state
       = Some \<lparr>wins = 0, trades = 0, total_return = 0, in_position = True, entry_price = 10\<rparr>"
    by (auto simp: init_state_def)
  from strategy_step_transitions[OF h(3) h(4), of "1 / 100"
      "\<lparr>wins = 0, trades = 0, total_return = 0, in_position = True, entry_price = 10\<rparr>"] v27
  have b: "strategy_step rally_closes (1 / 100) 27
         \<lparr>wins = 0, trades = 0, total_return = 0, in_position = True, entry_price = 10\<rparr>
       = Some \<lparr>wins = 1, trades = 1, total_return = 2, in_position = False, entry_price = 10\<rparr>"
    by auto
  from h a b show ?thesis by simp
qed

text \<open>
  Claim C2. The scan always ends. When it ends in the state LONG, exactly one more trade
  is booked after it, with the last close of the series as exit price and the accounting
  of a normal exit (total return, win count, trade count); when it ends FLAT nothing is
  booked. The returned trade count is the number of exits of the scan plus this forced
  close, and it equals the number of entries: every opened position is counted.
\<close>

theorem forced_close_accounting:
  assumes "closes = map close candles"
  shows "\<exists>st entries exits.
     scan_loop closes profit_threshold 26 init_state = Some st
     \<and> scan_count closes profit_threshold 26 init_state 0 0 = Some (entries, exits)
     \<and> trades st = exits
     \<and> final_state closes profit_threshold =
         Some (if in_position st
               then st\<lparr>total_return :=
                         total_return st + (last closes - entry_price st) / entry_price st,
                       wins := (if (last closes - entry_price st) / entry_price st
                                     > profit_threshold
                                then wins st + 1 else wins st),
                       trades := trades st + 1\<rparr>
               else st)
     \<and> map_option trade_count (run_strategy candles profit_threshold)
         = Some (exits + (if in_position st then 1 else 0))
     \<and> map_option trade_count (run_strategy candles profit_threshold) = Some entries"
proof -
  from scan_accounts[of 26 closes profit_threshold init_state 0 0] obtain st e x where
    r: "scan_loop closes profit_threshold 26 init_state = Some st"
       "scan_count closes profit_threshold 26 init_state 0 0 = Some (e, x)"
       "trades st = trades init_state + (x - 0)"
       "e - 0 = (x - 0) + held st - held init_state"
       "in_position st \<longrightarrow> in_position init_state \<or> 26 < int (length closes)"
    by blast
  have t: "trades st = x" using r(3) by (simp add: init_state_def)
  have e: "e = x + (if in_position st then 1 else 0)"
    using r(4) by (simp add: held_def init_state_def)
  have ne: "closes \<noteq> []" if "in_position st"
    using r(5) that by (auto simp: init_state_def)
  have f: "final_state closes profit_threshold =
         Some (if in_position st
               then st\<lparr>total_return :=
                         total_return st + (last closes - entry_price st) / entry_price st,
                       wins := (if (last closes - entry_price st) / entry_price st
                                     > profit_threshold
                                then wins st + 1 else wins st),
                       trades := trades st + 1\<rparr>
               else st)"
    using r(1) ne by (simp add: final_state_def force_close_def book_trade_def Let_def)
  have c: "map_option trade_count (run_strategy candles profit_threshold)
         = Some (x + (if in_position st then 1 else 0))"
    unfolding run_strategy_def assms[symmetric] f using t
    by (simp add: summary_def Let_def)
  from r(1,2) t f c e show ?thesis by auto
qed

theorem forced_close_accounting_witness:
  "hold_closes = map close (candles_of hold_closes)
   \<and> scan_loop hold_closes (1 / 100) 26 init_state = Some (entered_at 10)
   \<and> in_position (entered_at 10)
   \<and> last hold_closes = 21 / 2
   \<and> final_state hold_closes (1 / 100)
       = Some \<lparr>wins = 1, trades = 1, total_return = 1 / 20, in_position = True, entry_price = 10\<rparr>
   \<and> map_option trade_count (run_strategy (candles_of hold_closes) (1 / 100)) = Some 1"
proof -
  have h: "hold_closes = map close (candles_of hold_closes)"
    by (simp add: candles_of_def comp_def)
  have s: "scan_loop hold_closes (1 / 100) 26 init_state = Some (entered_at 10)"
    by code_simp
  have l: "last hold_closes = 21 / 2" by code_simp
  from forced_close_accounting[OF h, of "1 / 100"] s l
  have "final_state hold_closes (1 / 100)
       = Some \<lparr>wins = 1, trades = 1, total_return = 1 / 20, in_position = True, entry_price = 10\<rparr>
     \<and> map_option trade_count (run_strategy (candles_of hold_closes) (1 / 100)) = Some 1"
    by (auto simp: entered_at_def)
  with h s l show ?thesis by (simp add: entered_at_def)
qed

text \<open>
  Claim C3. \<open>run_strategy\<close> returns for every input. With the variables as they are at
  line 114, the trade count is never negative; when it is positive the average return is
  \<open>(total_return / trades) * 100\<close> and the success rate is \<open>(wins / trades) * 100\<close>; when
  it is 0 both are 0. When the entry condition holds at no scanned index, the trade count
  is 0.
\<close>

theorem summary_formulas:
  assumes "closes = map close candles"
  shows "\<exists>st. final_state closes profit_threshold = Some st
     \<and> 0 \<le> trades st
     \<and> run_strategy candles profit_threshold =
         Some \<lparr>success_rate = (if trades st > 0
                                then real_of_int (wins st) / real_of_int (trades st) * 100
                                else 0),
               average_return_percent = (if trades st > 0
                                then (total_return st / real_of_int (trades st)) * 100
                                else 0),
               trade_count = trades st,
               trade_log = []\<rparr>
     \<and> ((\<forall>i\<in>set [26..int (length closes) - 1]. \<not> entry_signal closes i) \<longrightarrow> trades st = 0)"
proof -
  from scan_accounts[of 26 closes profit_threshold init_state 0 0] obtain s0 x where
    r: "scan_loop closes profit_threshold 26 init_state = Some s0"
       "trades s0 = trades init_state + (x - 0)" "0 \<le> x"
       "in_position s0 \<longrightarrow> in_position init_state \<or> 26 < int (length closes)"
    by blast
  have ne: "closes \<noteq> []" if "in_position s0"
    using r(4) that by (auto simp: init_state_def)
  define st where "st = (if in_position s0 then book_trade profit_threshold (last closes) s0 else s0)"
  have f: "final_state closes profit_threshold = Some st"
    using r(1) ne by (simp add: final_state_def force_close_def st_def)
  have t: "0 \<le> trades st"
    using r(2,3) by (simp add: st_def book_trade_def Let_def init_state_def)
  have s: "run_strategy candles profit_threshold =
         Some \<lparr>success_rate = (if trades st > 0
                                then real_of_int (wins st) / real_of_int (trades st) * 100
                                else 0),
               average_return_percent = (if trades st > 0
                                then (total_return st / real_of_int (trades st)) * 100
                                else 0),
               trade_count = trades st,
               trade_log = []\<rparr>"
    unfolding run_strategy_def assms[symmetric] f using t
    by (simp add: summary_def Let_def)
  have n: "trades st = 0" if "\<forall>i\<in>set [26..int (length closes) - 1]. \<not> entry_signal closes i"
  proof -
    have "scan_loop closes profit_threshold 26 init_state = Some init_state"
      using that by (intro scan_without_entry) (simp_all add: init_state_def)
    with r(1) have "s0 = init_state" by simp
    then show ?thesis by (simp add: st_def init_state_def)
  qed
  from f t s n show ?thesis by blast
qed

theorem summary_formulas_witness:
  "rally_closes = map close (candles_of rally_closes)
   \<and> final_state rally_closes (1 / 100)
       = Some \<lparr>wins = 1, trades = 1, total_return = 2, in_position = False, entry_price = 10\<rparr>
   \<and> run_strategy (candles_of rally_closes) (1 / 100)
       = Some \<lparr>success_rate = 100, average_return_percent = 200, trade_count = 1, trade_log = []\<rparr>
   \<and> flat_closes = map close (candles_of flat_closes)
   \<and> list_all (\<lambda>i. \<not> entry_signal flat_closes i) [26..int (length flat_closes) - 1]
   \<and> run_strategy (candles_of flat_closes) (1 / 100)
       = Some \<lparr>success_rate = 0, average_return_percent = 0, trade_count = 0, trade_log = []\<rparr>"
proof -
  have h: "rally_closes = map close (candles_of rally_closes)"
    "flat_closes = map close (candles_of flat_closes)"
    by (simp_all add: candles_of_def comp_def)
  have f: "final_state rally_closes (1 / 100)
       = Some \<lparr>wins = 1, trades = 1, total_return = 2, in_position = False, entry_price = 10\<rparr>"
    by code_simp
  have q: "list_all (\<lambda>i. \<not> entry_signal flat_closes i) [26..int (length flat_closes) - 1]"
    by code_simp
  then have q': "\<forall>i\<in>set [26..int (length flat_closes) - 1]. \<not> entry_signal flat_closes i"
    by (simp only: list_all_iff)
  from summary_formulas[OF h(1), of "1 / 100"] f
  have a: "run_strategy (candles_of rally_closes) (1 / 100)
       = Some \<lparr>success_rate = 100, average_return_percent = 200, trade_count = 1, trade_log = []\<rparr>"
    by auto
  from summary_formulas[OF h(2), of "1 / 100"] q'
  have b: "run_strategy (candles_of flat_closes) (1 / 100)
       = Some \<lparr>success_rate = 0, average_return_percent = 0, trade_count = 0, trade_log = []\<rparr>"
    by auto
  from h f q a b show ?thesis by simp
qed

text \<open>
  Claim C9, amended. For a series whose closes are all strictly positive: the scan starts
  FLAT; every step of the scan keeps "LONG implies \<open>entry_price > 0\<close>"; so the entry
  price is strictly positive in every state the scan reaches in which a position is
  held, and in particular when the scan ends.
\<close>

theorem entry_price_positive:
  assumes "\<forall>c\<in>set closes. 0 < c"
  shows "\<not> in_position init_state
     \<and> ((in_position st \<longrightarrow> 0 < entry_price st)
          \<and> strategy_step closes profit_threshold i st = Some st' \<and> in_position st'
          \<longrightarrow> 0 < entry_price st')
     \<and> (scan_reaches closes profit_threshold k s \<and> in_position s \<longrightarrow> 0 < entry_price s)
     \<and> (scan_loop closes profit_threshold 26 init_state = Some s' \<and> in_position s'
          \<longrightarrow> 0 < entry_price s')"
proof (intro conjI impI)
  show "\<not> in_position init_state"
    by (simp add: init_state_def)
next
  assume "(in_position st \<longrightarrow> 0 < entry_price st)
          \<and> strategy_step closes profit_threshold i st = Some st' \<and> in_position st'"
  with entry_preserves_positive[OF assms, of profit_threshold i st st']
  show "0 < entry_price st'" by blast
next
  assume "scan_reaches closes profit_threshold k s \<and> in_position s"
  with scan_reaches_positive[OF assms] show "0 < entry_price s" by blast
next
  assume a: "scan_loop closes profit_threshold 26 init_state = Some s' \<and> in_position s'"
  with scan_loop_reaches[OF scan_reaches.start, of closes profit_threshold s']
  obtain j where "scan_reaches closes profit_threshold j s'" by blast
  with scan_reaches_positive[OF assms] a show "0 < entry_price s'" by blast
qed

theorem entry_price_positive_witness:
  "list_all (\<lambda>c. 0 < c) hold_closes
   \<and> strategy_step hold_closes 0 26 init_state = Some (entered_at 10)
   \<and> strategy_step hold_closes 0 27 (entered_at 10) = Some (entered_at 10)
   \<and> scan_reaches hold_closes 0 (26 + 1 + 1) (entered_at 10)
   \<and> scan_loop hold_closes 0 26 init_state = Some (entered_at 10)
   \<and> in_position (entered_at 10)
   \<and> 0 < entry_price (entered_at 10)"
proof -
  have p: "list_all (\<lambda>c. 0 < c) hold_closes" by code_simp
  then have p': "\<forall>c\<in>set hold_closes. 0 < c" by (simp only: list_all_iff)
  have s: "strategy_step hold_closes 0 26 init_state = Some (entered_at 10)" by code_simp
  have t: "strategy_step hold_closes 0 (26 + 1) (entered_at 10) = Some (entered_at 10)"
    by code_simp
  have l: "scan_loop hold_closes 0 26 init_state = Some (entered_at 10)" by code_simp
  have i: "in_position (entered_at 10)" by (simp add: entered_at_def)
  have n: "26 < int (length hold_closes)" "26 + 1 < int (length hold_closes)"
    by (simp_all add: hold_closes_def dip_closes_def)
  have r1: "scan_reaches hold_closes 0 (26 + 1) (entered_at 10)"
    by (rule scan_reaches.step[OF scan_reaches.start n(1) s])
  have r: "scan_reaches hold_closes 0 (26 + 1 + 1) (entered_at 10)"
    by (rule scan_reaches.step[OF r1 n(2) t])
  from entry_price_positive[OF p', where st = "entered_at 10" and profit_threshold = 0
      and i = "26 + 1" and st' = "entered_at 10" and k = "26 + 1 + 1" and s = "entered_at 10"
      and s' = "entered_at 10"] r i
  have "0 < entry_price (entered_at 10)" by blast
  with p s t r l i show ?thesis by simp
qed

text \<open>
  As claim C9 is stated, for every series, it fails: on \<open>shifted_closes\<close> the entry
  condition holds at index 26, where the close is \<open>-1\<close>, and the scan ends LONG with
  that entry price.
\<close>

theorem entry_price_positive_counterexample:
  "strategy_step shifted_closes 0 26 init_state = Some (entered_at (- 1))
   \<and> scan_loop shifted_closes 0 26 init_state = Some (entered_at (- 1))
   \<and> in_position (entered_at (- 1))
   \<and> entry_price (entered_at (- 1)) = - 1
   \<and> \<not> 0 < entry_price (entered_at (- 1))"
proof -
  have s: "strategy_step shifted_closes 0 26 init_state = Some (entered_at (- 1))" by code_simp
  have l: "scan_loop shifted_closes 0 26 init_state = Some (entered_at (- 1))" by code_simp
  from s l show ?thesis by (simp add: entered_at_def)
qed

text \<open>
  Claim C10. For 26 candles or fewer, the empty sequence included, and any profit
  threshold: the scan makes no step, no position is opened or closed, nothing is force
  closed, and the result is 0 trades, success rate 0, average return 0 and an empty
  trade log.
\<close>

theorem short_series_no_trades:
  assumes "length candles \<le> 26"
  shows "scan_loop (map close candles) profit_threshold 26 init_state = Some init_state
     \<and> scan_count (map close candles) profit_threshold 26 init_state 0 0 = Some (0, 0)
     \<and> final_state (map close candles) profit_threshold = Some init_state
     \<and> run_strategy candles profit_threshold =
         Some \<lparr>success_rate = 0, average_return_percent = 0, trade_count = 0, trade_log = []\<rparr>"
proof -
  have n: "\<not> 26 < int (length (map close candles))" using assms by simp
  have a: "scan_loop (map close candles) profit_threshold 26 init_state = Some init_state"
    using n by (simp add: scan_loop.simps[of _ _ 26])
  have b: "scan_count (map close candles) profit_threshold 26 init_state 0 0 = Some (0, 0)"
    using n by (simp add: scan_count.simps[of _ _ 26])
  have c: "final_state (map close candles) profit_threshold = Some init_state"
    using a by (simp add: final_state_def force_close_def init_state_def)
  have d: "run_strategy candles profit_threshold =
         Some \<lparr>success_rate = 0, average_return_percent = 0, trade_count = 0, trade_log = []\<rparr>"
    using c by (simp add: run_strategy_def summary_def init_state_def)
  from a b c d show ?thesis by blast
qed

theorem short_series_no_trades_witness:
  "length (candles_of (take 26 dip_closes)) = 26
   \<and> run_strategy (candles_of (take 26 dip_closes)) (1 / 100) =
       Some \<lparr>success_rate = 0, average_return_percent = 0, trade_count = 0, trade_log = []\<rparr>
   \<and> run_strategy [] (1 / 100) =
       Some \<lparr>success_rate = 0, average_return_percent = 0, trade_count = 0, trade_log = []\<rparr>"
proof -
  have h: "length (candles_of (take 26 dip_closes)) = 26"
    by (simp add: candles_of_def dip_closes_def)
  then have h': "length (candles_of (take 26 dip_closes)) \<le> 26" by simp
  have e: "length ([] :: Candle list) \<le> 26" by simp
  from short_series_no_trades[OF h', of "1 / 100"] short_series_no_trades[OF e, of "1 / 100"] h
  show ?thesis by simp
qed

end
